theory Spec2Isabelle
  imports Main "HOL-Library.Word"
begin

unbundle bit_operations_syntax

section \<open>Data model of the checkpoint storage\<close>

text \<open>
  The reference-counted store of \<^verbatim>\<open>checkpointstorage.cpp\<close>. Keys and values are
  \<^verbatim>\<open>std::vector<unsigned char>\<close>, the engine stores \<^verbatim>\<open>std::string\<close>; both are
  byte lists here (the conversions between \<^verbatim>\<open>char\<close> and \<^verbatim>\<open>unsigned char\<close> keep
  every bit). The reference count is a \<^verbatim>\<open>uint32_t\<close>.
\<close>

type_synonym byte = "8 word"
type_synonym bytes = "byte list"
type_synonym u32 = "32 word"

text \<open>
  \<^verbatim>\<open>memcpy\<close> between a \<^verbatim>\<open>uint32_t\<close> and four bytes uses the byte order of the
  host, which the source does not fix: it is a parameter of the model.
\<close>

datatype endian = LittleEndian | BigEndian

text \<open>The status codes of the underlying engine (\<^verbatim>\<open>rocksdb::Status\<close>).\<close>

datatype Status =
    OK | NotFound | Corruption | NotSupported | InvalidArgument | IOError
  | MergeInProgress | Incomplete | ShutdownInProgress | TimedOut | Aborted
  | Busy | Expired | TryAgain | CompactionTooLarge | ColumnFamilyDropped

text \<open>\<^verbatim>\<open>Status::ok()\<close>\<close>

definition ok :: "Status \<Rightarrow> bool" where
  "ok st = (st = OK)"

text \<open>
  The ways a call dies instead of returning. The model is of a build with assertions
  enabled: an \<^verbatim>\<open>assert\<close> of the source that does not hold aborts the process, and is
  named here after the asserted expression. \<^verbatim>\<open>parseCountAndValue\<close> on a stored string of
  one to three bytes copies four bytes and builds the value from an iterator past the end,
  which is undefined behaviour: the model makes it a fatal fault of its own.
\<close>

datatype assertion =
    StoredValueEqualsValue
  | TransactionCreated
  | PutStatusOk
  | DeleteStatusOk
  | CommitStatusOk

datatype fatal = AssertionFailure assertion | OutOfBoundsRead

text \<open>
  The result structs of the header: \<^verbatim>\<open>DeleteResults{reference_count, status}\<close>,
  \<^verbatim>\<open>GetResults{reference_count, status, stored_value}\<close> and
  \<^verbatim>\<open>SaveResults{reference_count, status, storage_key}\<close>. They share their first two
  fields, so the latter two are extensions of the first.
\<close>

record DeleteResults =
  reference_count :: u32
  status :: Status

record GetResults = DeleteResults +
  stored_value :: bytes

record SaveResults = DeleteResults +
  storage_key :: bytes

text \<open>
  The engine instance \<^verbatim>\<open>txn_db\<close>. It is external to this layer, so the model keeps
  what the code observes of it: the table of committed key-value pairs, and for each
  engine call whose status the code inspects, the status the engine answers with
  (\<open>OK\<close> when the engine is healthy).
\<close>

record txn_db =
  table :: "bytes \<rightharpoonup> bytes"
  read_answer :: "bytes \<Rightarrow> Status"
  begin_fails :: bool
  put_answer :: Status
  delete_answer :: Status
  commit_answer :: Status

text \<open>
  \<^verbatim>\<open>txn_db->Get(read_options, key_str, &return_value)\<close>: the status of a failed read, or
  \<open>NotFound\<close> for a key with no pair, or \<open>OK\<close> and the stored string.
\<close>

definition db_Get :: "txn_db \<Rightarrow> bytes \<Rightarrow> Status \<times> bytes" where
  "db_Get db key_str =
     (if read_answer db key_str \<noteq> OK then (read_answer db key_str, [])
      else case table db key_str of
             None \<Rightarrow> (NotFound, [])
           | Some return_value \<Rightarrow> (OK, return_value))"

section \<open>The record format\<close>

text \<open>
  The four bytes of a \<^verbatim>\<open>uint32_t\<close>, least significant first, and the value of four
  such bytes. \<open>u32_of_le\<close> is only applied to four bytes.
\<close>

definition u32_to_le :: "u32 \<Rightarrow> bytes" where
  "u32_to_le w = [ucast w, ucast (drop_bit 8 w), ucast (drop_bit 16 w), ucast (drop_bit 24 w)]"

fun u32_of_le :: "bytes \<Rightarrow> u32" where
  "u32_of_le (b0 # b1 # b2 # b3 # rest) =
     ucast b0 OR push_bit 8 (ucast b1) OR push_bit 16 (ucast b2) OR push_bit 24 (ucast b3)"
| "u32_of_le _ = 0"

text \<open>\<^verbatim>\<open>memcpy(&output_vector[0], &count, sizeof(count))\<close>\<close>

definition memcpy_from_u32 :: "endian \<Rightarrow> u32 \<Rightarrow> bytes" where
  "memcpy_from_u32 e w = (case e of LittleEndian \<Rightarrow> u32_to_le w | BigEndian \<Rightarrow> rev (u32_to_le w))"

text \<open>\<^verbatim>\<open>memcpy(&ref_count, c_string, sizeof(ref_count))\<close>, on at least four bytes.\<close>

definition memcpy_to_u32 :: "endian \<Rightarrow> bytes \<Rightarrow> u32" where
  "memcpy_to_u32 e s =
     (case e of LittleEndian \<Rightarrow> u32_of_le (take 4 s) | BigEndian \<Rightarrow> u32_of_le (rev (take 4 s)))"

definition parseCountAndValue :: "endian \<Rightarrow> bytes \<Rightarrow> fatal + (u32 \<times> bytes)" where
  "parseCountAndValue e string_value =
     (if string_value = [] then Inr (0, [])
      else if length string_value < 4 then Inl OutOfBoundsRead
      else Inr (memcpy_to_u32 e string_value, drop 4 string_value))"

definition serializeCountAndValue :: "endian \<Rightarrow> u32 \<Rightarrow> bytes \<Rightarrow> bytes" where
  "serializeCountAndValue e count val = memcpy_from_u32 e count @ val"

section \<open>The store operations\<close>

definition getValue :: "endian \<Rightarrow> txn_db \<Rightarrow> bytes \<Rightarrow> fatal + GetResults" where
  "getValue e db hash_key =
     (case db_Get db hash_key of (get_status, return_value) \<Rightarrow>
        if ok get_status then
          (case parseCountAndValue e return_value of
             Inl f \<Rightarrow> Inl f
           | Inr (ref_count, stored_val) \<Rightarrow>
               Inr \<lparr>reference_count = ref_count, status = get_status, stored_value = stored_val\<rparr>)
        else
          Inr \<lparr>reference_count = 0, status = NotFound, stored_value = []\<rparr>)"

text \<open>
  \<^verbatim>\<open>saveKeyValuePair\<close>: begin a transaction, put, commit; each step is asserted, and the
  committed put is what changes the table.
\<close>

definition saveKeyValuePair :: "txn_db \<Rightarrow> bytes \<Rightarrow> bytes \<Rightarrow> fatal + (Status \<times> txn_db)" where
  "saveKeyValuePair db key val =
     (if begin_fails db then Inl (AssertionFailure TransactionCreated)
      else if \<not> ok (put_answer db) then Inl (AssertionFailure PutStatusOk)
      else if \<not> ok (commit_answer db) then Inl (AssertionFailure CommitStatusOk)
      else Inr (commit_answer db, db\<lparr>table := (table db)(key \<mapsto> val)\<rparr>))"

definition deleteKeyValuePair :: "txn_db \<Rightarrow> bytes \<Rightarrow> fatal + (Status \<times> txn_db)" where
  "deleteKeyValuePair db key =
     (if begin_fails db then Inl (AssertionFailure TransactionCreated)
      else if \<not> ok (delete_answer db) then Inl (AssertionFailure DeleteStatusOk)
      else if \<not> ok (commit_answer db) then Inl (AssertionFailure CommitStatusOk)
      else Inr (commit_answer db, db\<lparr>table := (table db)(key := None)\<rparr>))"

definition saveValueWithRefCount ::
  "endian \<Rightarrow> u32 \<Rightarrow> txn_db \<Rightarrow> bytes \<Rightarrow> bytes \<Rightarrow> fatal + (SaveResults \<times> txn_db)" where
  "saveValueWithRefCount e updated_ref_count db hash_key val =
     (case saveKeyValuePair db hash_key (serializeCountAndValue e updated_ref_count val) of
        Inl f \<Rightarrow> Inl f
      | Inr (st, db') \<Rightarrow>
          if ok st then
            Inr (\<lparr>reference_count = updated_ref_count, status = st, storage_key = hash_key\<rparr>, db')
          else
            Inr (\<lparr>reference_count = 0, status = st, storage_key = hash_key\<rparr>, db'))"

definition incrementReference :: "endian \<Rightarrow> txn_db \<Rightarrow> bytes \<Rightarrow> fatal + (SaveResults \<times> txn_db)" where
  "incrementReference e db hash_key =
     (case getValue e db hash_key of
        Inl f \<Rightarrow> Inl f
      | Inr results \<Rightarrow>
          if ok (status results) then
            saveValueWithRefCount e (reference_count results + 1) db hash_key (stored_value results)
          else
            Inr (\<lparr>reference_count = 0, status = status results, storage_key = hash_key\<rparr>, db))"

text \<open>
  \<^verbatim>\<open>saveValue\<close> keeps the new count in an \<^verbatim>\<open>int\<close>: the sum is computed on
  \<^verbatim>\<open>uint32_t\<close>, converted to \<^verbatim>\<open>int\<close>, and converted back at the call of
  \<^verbatim>\<open>saveValueWithRefCount\<close>.
\<close>

definition int_of_u32 :: "u32 \<Rightarrow> int" where
  "int_of_u32 w = sint w"

definition u32_of_int :: "int \<Rightarrow> u32" where
  "u32_of_int i = word_of_int i"

definition saveValue :: "endian \<Rightarrow> txn_db \<Rightarrow> bytes \<Rightarrow> bytes \<Rightarrow> fatal + (SaveResults \<times> txn_db)" where
  "saveValue e db hash_key val =
     (case getValue e db hash_key of
        Inl f \<Rightarrow> Inl f
      | Inr results \<Rightarrow>
          if ok (status results) then
            (if stored_value results = val then
               saveValueWithRefCount e (u32_of_int (int_of_u32 (reference_count results + 1)))
                 db hash_key val
             else Inl (AssertionFailure StoredValueEqualsValue))
          else
            saveValueWithRefCount e (u32_of_int 1) db hash_key val)"

definition deleteValue :: "endian \<Rightarrow> txn_db \<Rightarrow> bytes \<Rightarrow> fatal + (DeleteResults \<times> txn_db)" where
  "deleteValue e db hash_key =
     (case getValue e db hash_key of
        Inl f \<Rightarrow> Inl f
      | Inr results \<Rightarrow>
          if ok (status results) then
            (if reference_count results < 2 then
               (case deleteKeyValuePair db hash_key of
                  Inl f \<Rightarrow> Inl f
                | Inr (delete_status, db') \<Rightarrow>
                    Inr (\<lparr>reference_count = 0, status = delete_status\<rparr>, db'))
             else
               (case saveValueWithRefCount e (reference_count results - 1) db hash_key
                       (stored_value results) of
                  Inl f \<Rightarrow> Inl f
                | Inr (update_result, db') \<Rightarrow>
                    Inr (\<lparr>reference_count = reference_count results - 1,
                          status = status update_result\<rparr>, db')))
          else
            Inr (\<lparr>reference_count = 0, status = status results\<rparr>, db))"

section \<open>Sequences of operations\<close>

datatype operation =
    SaveValue bytes bytes
  | IncrementReference bytes
  | DeleteValue bytes

text \<open>The engine after one operation; a fatal fault ends the process.\<close>

fun apply_operation :: "endian \<Rightarrow> txn_db \<Rightarrow> operation \<Rightarrow> fatal + txn_db" where
  "apply_operation e db (SaveValue k v) =
     (case saveValue e db k v of Inl f \<Rightarrow> Inl f | Inr (r, db') \<Rightarrow> Inr db')"
| "apply_operation e db (IncrementReference k) =
     (case incrementReference e db k of Inl f \<Rightarrow> Inl f | Inr (r, db') \<Rightarrow> Inr db')"
| "apply_operation e db (DeleteValue k) =
     (case deleteValue e db k of Inl f \<Rightarrow> Inl f | Inr (r, db') \<Rightarrow> Inr db')"

fun run :: "endian \<Rightarrow> txn_db \<Rightarrow> operation list \<Rightarrow> fatal + txn_db" where
  "run e db [] = Inr db"
| "run e db (x # xs) =
     (case apply_operation e db x of Inl f \<Rightarrow> Inl f | Inr db' \<Rightarrow> run e db' xs)"

text \<open>An engine whose transactions succeed: every assertion of the write path holds.\<close>

definition writes_ok :: "txn_db \<Rightarrow> bool" where
  "writes_ok db =
     (\<not> begin_fails db \<and> put_answer db = OK \<and> delete_answer db = OK \<and> commit_answer db = OK)"

text \<open>A store just created: no record, a healthy engine.\<close>

definition fresh_db :: txn_db where
  "fresh_db =
     \<lparr>table = Map.empty, read_answer = (\<lambda>k. OK), begin_fails = False,
      put_answer = OK, delete_answer = OK, commit_answer = OK\<rparr>"

text \<open>A store holding one record, on a healthy engine.\<close>

definition single_record_db :: "endian \<Rightarrow> bytes \<Rightarrow> u32 \<Rightarrow> bytes \<Rightarrow> txn_db" where
  "single_record_db e k c v = fresh_db\<lparr>table := (table fresh_db)(k \<mapsto> serializeCountAndValue e c v)\<rparr>"

text \<open>The same store with one record of count 1, on an engine whose reads fail.\<close>

definition read_failing_db :: "Status \<Rightarrow> txn_db" where
  "read_failing_db st =
     (single_record_db LittleEndian [97, 98, 99] 1 [1, 2, 3])\<lparr>read_answer := (\<lambda>k. st)\<rparr>"

text \<open>
  An operation wraps the count when it adds 1 to a record that \<^verbatim>\<open>getValue\<close> finds with
  count \<open>2 ^ 32 - 1\<close>: \<^verbatim>\<open>saveValue\<close> and \<^verbatim>\<open>incrementReference\<close> can, \<^verbatim>\<open>deleteValue\<close>
  cannot. A run has no wrap when none of its operations wraps the count of the store it is
  applied to.
\<close>

definition at_full_count :: "endian \<Rightarrow> txn_db \<Rightarrow> bytes \<Rightarrow> bool" where
  "at_full_count e db k =
     (case getValue e db k of
        Inl f \<Rightarrow> False
      | Inr results \<Rightarrow> ok (status results) \<and> unat (reference_count results) = 2 ^ 32 - 1)"

fun wraps :: "endian \<Rightarrow> txn_db \<Rightarrow> operation \<Rightarrow> bool" where
  "wraps e db (SaveValue k v) = at_full_count e db k"
| "wraps e db (IncrementReference k) = at_full_count e db k"
| "wraps e db (DeleteValue k) = False"

fun no_wrap :: "endian \<Rightarrow> txn_db \<Rightarrow> operation list \<Rightarrow> bool" where
  "no_wrap e db [] = True"
| "no_wrap e db (x # xs) =
     (\<not> wraps e db x \<and>
      (case apply_operation e db x of Inl f \<Rightarrow> True | Inr db' \<Rightarrow> no_wrap e db' xs))"

text \<open>
  Every stored record decodes to a count of at least 1: what the operations maintain as
  long as no count wraps.
\<close>

definition counts_nonzero :: "endian \<Rightarrow> txn_db \<Rightarrow> bool" where
  "counts_nonzero e db =
     (\<forall>k s. table db k = Some s \<longrightarrow> (\<exists>c v. parseCountAndValue e s = Inr (c, v) \<and> 1 \<le> c))"

text \<open>The definitions that evaluate the operations on a concrete store.\<close>

lemmas eval_defs =
  fresh_db_def single_record_db_def read_failing_db_def writes_ok_def ok_def
  getValue_def db_Get_def parseCountAndValue_def serializeCountAndValue_def
  memcpy_to_u32_def memcpy_from_u32_def u32_to_le_def
  saveValue_def incrementReference_def deleteValue_def saveValueWithRefCount_def
  saveKeyValuePair_def deleteKeyValuePair_def int_of_u32_def u32_of_int_def
  at_full_count_def

section \<open>Properties of the record format\<close>

lemma u32_of_le_to_le: "u32_of_le (u32_to_le w) = w"
proof (rule bit_word_eqI)
  fix n :: nat
  assume "n < LENGTH(32)"
  then have n: "n < 32" by simp
  consider "n < 8" | "8 \<le> n" "n < 16" | "16 \<le> n" "n < 24" | "24 \<le> n"
    by linarith
  then show "bit (u32_of_le (u32_to_le w)) n = bit w n"
  proof cases
    case 1
    then show ?thesis by (auto simp add: u32_to_le_def bit_simps)
  next
    case 2
    then show ?thesis by (auto simp add: u32_to_le_def bit_simps)
  next
    case 3
    then show ?thesis by (auto simp add: u32_to_le_def bit_simps)
  next
    case 4
    then show ?thesis using n by (auto simp add: u32_to_le_def bit_simps)
  qed
qed

lemma length_u32_to_le: "length (u32_to_le w) = 4"
  by (simp add: u32_to_le_def)

lemma memcpy_u32_roundtrip: "memcpy_to_u32 e (memcpy_from_u32 e w @ rest) = w"
  by (cases e) (simp_all add: memcpy_to_u32_def memcpy_from_u32_def length_u32_to_le u32_of_le_to_le)

lemma length_memcpy_from_u32: "length (memcpy_from_u32 e w) = 4"
  by (cases e) (simp_all add: memcpy_from_u32_def length_u32_to_le)

lemma parse_record:
  "parseCountAndValue e (memcpy_from_u32 e c @ v) = Inr (c, v)"
proof -
  have len: "length (memcpy_from_u32 e c) = 4"
    by (rule length_memcpy_from_u32)
  then have ne: "memcpy_from_u32 e c \<noteq> []"
    by auto
  show ?thesis
    using len ne by (simp add: parseCountAndValue_def memcpy_u32_roundtrip)
qed

section \<open>Arithmetic of the 32-bit count\<close>

lemma u32_int_roundtrip: "u32_of_int (int_of_u32 w) = w"
  by (simp add: u32_of_int_def int_of_u32_def)

lemma unat_pred: "1 < w \<Longrightarrow> unat (w - 1) = unat w - 1" for w :: u32
proof -
  assume "1 < w"
  then have "w \<noteq> 0" by auto
  then show ?thesis by (simp add: unat_minus_one)
qed

lemma not_less_2: "w \<le> 1 \<Longrightarrow> w < 2" for w :: u32
  by (simp add: word_less_nat_alt word_le_nat_alt)


lemma u32_ge_1: "(1 \<le> c) = (c \<noteq> 0)" for c :: u32
  by (simp add: word_le_nat_alt word_unat_eq_iff Suc_le_eq)

lemma u32_succ_nonzero: "unat c \<noteq> 2 ^ 32 - 1 \<Longrightarrow> 1 \<le> c + 1" for c :: u32
proof -
  assume ne: "unat c \<noteq> 2 ^ 32 - 1"
  have "c + 1 \<noteq> 0"
  proof
    assume "c + 1 = 0"
    then have "c = - 1" by (rule max_word_wrap)
    then have "c = 4294967295" by simp
    then have "unat c = 2 ^ 32 - 1" by simp
    with ne show False by simp
  qed
  then show ?thesis by (simp add: u32_ge_1)
qed

lemma u32_pred_nonzero: "\<not> c < 2 \<Longrightarrow> 1 \<le> c - 1" for c :: u32
proof -
  assume "\<not> c < 2"
  then have c1: "1 < c" by (simp add: word_less_nat_alt)
  then have "1 < unat c" by (simp add: word_less_nat_alt)
  moreover from c1 have "unat (c - 1) = unat c - 1" by (rule unat_pred)
  ultimately have "1 \<le> unat (c - 1)" by linarith
  then show ?thesis by (simp add: word_le_nat_alt)
qed

lemma u32_wrap: "(4294967296 :: u32) = 0"
  by (simp add: word_unat_eq_iff)

section \<open>Single operations\<close>

lemma getValue_absent:
  "table db k = None \<Longrightarrow>
   getValue e db k = Inr \<lparr>reference_count = 0, status = NotFound, stored_value = []\<rparr>"
  by (simp add: getValue_def db_Get_def ok_def)

lemma getValue_read_failure:
  "read_answer db k \<noteq> OK \<Longrightarrow>
   getValue e db k = Inr \<lparr>reference_count = 0, status = NotFound, stored_value = []\<rparr>"
  by (simp add: getValue_def db_Get_def ok_def)

lemma getValue_okD:
  assumes "getValue e db k = Inr r" and "ok (status r)"
  shows "read_answer db k = OK"
    and "\<exists>s. table db k = Some s \<and> parseCountAndValue e s = Inr (reference_count r, stored_value r)"
    and "status r = OK"
  using assms
  by (auto simp add: getValue_def db_Get_def ok_def split: if_splits option.splits sum.splits prod.splits)

lemma getValue_stored:
  "read_answer db k = OK \<Longrightarrow> table db k = Some (serializeCountAndValue e c v) \<Longrightarrow>
   getValue e db k = Inr \<lparr>reference_count = c, status = OK, stored_value = v\<rparr>"
  by (simp add: getValue_def db_Get_def ok_def serializeCountAndValue_def parse_record)

lemma writes_ok_table [simp]: "writes_ok (db\<lparr>table := t\<rparr>) = writes_ok db"
  by (simp add: writes_ok_def)

lemma saveValueWithRefCount_ok:
  "writes_ok db \<Longrightarrow>
   saveValueWithRefCount e c db k v =
     Inr (\<lparr>reference_count = c, status = OK, storage_key = k\<rparr>,
          db\<lparr>table := (table db)(k \<mapsto> serializeCountAndValue e c v)\<rparr>)"
  by (simp add: saveValueWithRefCount_def saveKeyValuePair_def writes_ok_def ok_def)

lemma deleteKeyValuePair_ok:
  "writes_ok db \<Longrightarrow>
   deleteKeyValuePair db k = Inr (OK, db\<lparr>table := (table db)(k := None)\<rparr>)"
  by (simp add: deleteKeyValuePair_def writes_ok_def ok_def)

lemma saveValueWithRefCount_table:
  "saveValueWithRefCount e c db k v = Inr (r, db') \<Longrightarrow>
   table db' = (table db)(k \<mapsto> serializeCountAndValue e c v)"
  by (auto simp add: saveValueWithRefCount_def saveKeyValuePair_def split: if_splits)

lemma deleteKeyValuePair_table:
  "deleteKeyValuePair db k = Inr (st, db') \<Longrightarrow> table db' = (table db)(k := None)"
  by (auto simp add: deleteKeyValuePair_def split: if_splits)

lemma saveValue_absent_eq:
  "getValue e db k = Inr \<lparr>reference_count = 0, status = NotFound, stored_value = []\<rparr> \<Longrightarrow>
   saveValue e db k v = saveValueWithRefCount e 1 db k v"
  by (simp add: saveValue_def ok_def u32_of_int_def)

lemma saveValue_present_eq:
  "getValue e db k = Inr \<lparr>reference_count = c, status = OK, stored_value = v0\<rparr> \<Longrightarrow>
   saveValue e db k v =
     (if v0 = v then saveValueWithRefCount e (c + 1) db k v
      else Inl (AssertionFailure StoredValueEqualsValue))"
  by (simp add: saveValue_def ok_def u32_int_roundtrip)

lemma incrementReference_absent_eq:
  "getValue e db k = Inr \<lparr>reference_count = 0, status = NotFound, stored_value = []\<rparr> \<Longrightarrow>
   incrementReference e db k =
     Inr (\<lparr>reference_count = 0, status = NotFound, storage_key = k\<rparr>, db)"
  by (simp add: incrementReference_def ok_def)

lemma incrementReference_present_eq:
  "getValue e db k = Inr \<lparr>reference_count = c, status = OK, stored_value = v0\<rparr> \<Longrightarrow>
   incrementReference e db k = saveValueWithRefCount e (c + 1) db k v0"
  by (simp add: incrementReference_def ok_def)

lemma deleteValue_absent_eq:
  "getValue e db k = Inr \<lparr>reference_count = 0, status = NotFound, stored_value = []\<rparr> \<Longrightarrow>
   deleteValue e db k = Inr (\<lparr>reference_count = 0, status = NotFound\<rparr>, db)"
  by (simp add: deleteValue_def ok_def)

lemma deleteValue_present_eq:
  "getValue e db k = Inr \<lparr>reference_count = c, status = OK, stored_value = v0\<rparr> \<Longrightarrow>
   deleteValue e db k =
     (if c < 2 then
        (case deleteKeyValuePair db k of
           Inl f \<Rightarrow> Inl f
         | Inr (st, db') \<Rightarrow> Inr (\<lparr>reference_count = 0, status = st\<rparr>, db'))
      else
        (case saveValueWithRefCount e (c - 1) db k v0 of
           Inl f \<Rightarrow> Inl f
         | Inr (u, db') \<Rightarrow> Inr (\<lparr>reference_count = c - 1, status = status u\<rparr>, db')))"
  by (simp add: deleteValue_def ok_def cong: sum.case_cong)

lemma saveValue_first:
  assumes "table db k = None" and "writes_ok db"
  shows "saveValue e db k v =
    Inr (\<lparr>reference_count = 1, status = OK, storage_key = k\<rparr>,
         db\<lparr>table := (table db)(k \<mapsto> serializeCountAndValue e 1 v)\<rparr>)"
proof -
  have "getValue e db k = Inr \<lparr>reference_count = 0, status = NotFound, stored_value = []\<rparr>"
    using assms(1) by (rule getValue_absent)
  then have "saveValue e db k v = saveValueWithRefCount e 1 db k v"
    by (rule saveValue_absent_eq)
  with assms(2) show ?thesis by (simp add: saveValueWithRefCount_ok)
qed

lemma saveValue_again:
  assumes "table db k = Some (serializeCountAndValue e c v)" and "read_answer db k = OK"
    and "writes_ok db"
  shows "saveValue e db k v =
    Inr (\<lparr>reference_count = c + 1, status = OK, storage_key = k\<rparr>,
         db\<lparr>table := (table db)(k \<mapsto> serializeCountAndValue e (c + 1) v)\<rparr>)"
proof -
  have "getValue e db k = Inr \<lparr>reference_count = c, status = OK, stored_value = v\<rparr>"
    using assms(2,1) by (rule getValue_stored)
  then have "saveValue e db k v = saveValueWithRefCount e (c + 1) db k v"
    by (simp add: saveValue_present_eq)
  with assms(3) show ?thesis by (simp add: saveValueWithRefCount_ok)
qed

lemma incrementReference_stored:
  assumes "table db k = Some (serializeCountAndValue e c v)" and "read_answer db k = OK"
    and "writes_ok db"
  shows "incrementReference e db k =
    Inr (\<lparr>reference_count = c + 1, status = OK, storage_key = k\<rparr>,
         db\<lparr>table := (table db)(k \<mapsto> serializeCountAndValue e (c + 1) v)\<rparr>)"
proof -
  have "getValue e db k = Inr \<lparr>reference_count = c, status = OK, stored_value = v\<rparr>"
    using assms(2,1) by (rule getValue_stored)
  then have "incrementReference e db k = saveValueWithRefCount e (c + 1) db k v"
    by (rule incrementReference_present_eq)
  with assms(3) show ?thesis by (simp add: saveValueWithRefCount_ok)
qed

lemma saveValue_writes:
  assumes "saveValue e db k v = Inr (r, db')"
  shows "\<exists>c. saveValueWithRefCount e c db k v = Inr (r, db')"
proof (cases "getValue e db k")
  case (Inl f)
  with assms show ?thesis by (simp add: saveValue_def)
next
  case (Inr g)
  with assms show ?thesis
    by (cases "ok (status g)"; cases "stored_value g = v") (auto simp add: saveValue_def)
qed

lemma incrementReference_writes:
  assumes "incrementReference e db k = Inr (r, db')"
  shows "db' = db \<or> (\<exists>c v. saveValueWithRefCount e c db k v = Inr (r, db'))"
proof (cases "getValue e db k")
  case (Inl f)
  with assms show ?thesis by (simp add: incrementReference_def)
next
  case (Inr g)
  with assms show ?thesis
    by (cases "ok (status g)") (auto simp add: incrementReference_def)
qed

lemma deleteValue_writes:
  assumes "deleteValue e db k = Inr (r, db')"
  shows "db' = db \<or> (\<exists>st. deleteKeyValuePair db k = Inr (st, db'))
      \<or> (\<exists>c v u. saveValueWithRefCount e c db k v = Inr (u, db'))"
proof (cases "getValue e db k")
  case (Inl f)
  with assms show ?thesis by (simp add: deleteValue_def)
next
  case (Inr g)
  show ?thesis
  proof (cases "ok (status g)")
    case False
    with Inr assms show ?thesis by (simp add: deleteValue_def)
  next
    case True
    show ?thesis
    proof (cases "reference_count g < 2")
      case last: True
      with Inr True assms show ?thesis
        by (cases "deleteKeyValuePair db k") (auto simp add: deleteValue_def)
    next
      case more: False
      with Inr True assms show ?thesis
        by (cases "saveValueWithRefCount e (reference_count g - 1) db k (stored_value g)")
          (auto simp add: deleteValue_def)
    qed
  qed
qed

lemma getValue_single_record:
  "getValue e (single_record_db e k c v) k =
     Inr \<lparr>reference_count = c, status = OK, stored_value = v\<rparr>"
  by (rule getValue_stored) (simp_all add: single_record_db_def fresh_db_def)

lemma writes_ok_single_record: "writes_ok (single_record_db e k c v)"
  by (simp add: single_record_db_def fresh_db_def writes_ok_def)

lemma writes_ok_fresh: "writes_ok fresh_db"
  by (simp add: fresh_db_def writes_ok_def)

section \<open>Sequences of operations: what they maintain\<close>

lemma counts_nonzero_put:
  assumes "counts_nonzero e db" and "1 \<le> c"
    and "table db' = (table db)(k \<mapsto> serializeCountAndValue e c v)"
  shows "counts_nonzero e db'"
  unfolding counts_nonzero_def
proof (intro allI impI)
  fix k' s
  assume s: "table db' k' = Some s"
  show "\<exists>c v. parseCountAndValue e s = Inr (c, v) \<and> 1 \<le> c"
  proof (cases "k' = k")
    case True
    with s assms(3) have "s = serializeCountAndValue e c v" by simp
    then have "parseCountAndValue e s = Inr (c, v)"
      by (simp add: serializeCountAndValue_def parse_record)
    with assms(2) show ?thesis by blast
  next
    case False
    with s assms(3) have "table db k' = Some s" by simp
    with assms(1) show ?thesis
      unfolding counts_nonzero_def by blast
  qed
qed

lemma counts_nonzero_remove:
  assumes "counts_nonzero e db" and "table db' = (table db)(k := None)"
  shows "counts_nonzero e db'"
  unfolding counts_nonzero_def
proof (intro allI impI)
  fix k' s
  assume s: "table db' k' = Some s"
  with assms(2) have "table db k' = Some s" by (cases "k' = k") simp_all
  with assms(1) show "\<exists>c v. parseCountAndValue e s = Inr (c, v) \<and> 1 \<le> c"
    unfolding counts_nonzero_def by blast
qed

lemma counts_nonzero_fresh: "counts_nonzero e fresh_db"
  by (simp add: counts_nonzero_def fresh_db_def)

lemma counts_nonzero_single_record: "1 \<le> c \<Longrightarrow> counts_nonzero e (single_record_db e k c v)"
  by (rule counts_nonzero_put [where db = fresh_db and k = k and c = c and v = v])
    (simp_all add: counts_nonzero_fresh single_record_db_def)

lemma getValue_counts_nonzero:
  assumes "counts_nonzero e db"
  shows "getValue e db k = Inr \<lparr>reference_count = 0, status = NotFound, stored_value = []\<rparr>
         \<or> (\<exists>c v. table db k \<noteq> None \<and> 1 \<le> c
               \<and> getValue e db k = Inr \<lparr>reference_count = c, status = OK, stored_value = v\<rparr>)"
proof (cases "read_answer db k = OK")
  case False
  then show ?thesis by (simp add: getValue_read_failure)
next
  case True
  show ?thesis
  proof (cases "table db k")
    case None
    then show ?thesis by (simp add: getValue_absent)
  next
    case (Some s)
    with assms obtain c v where p: "parseCountAndValue e s = Inr (c, v)" and c: "1 \<le> c"
      unfolding counts_nonzero_def by blast
    from True Some p
    have "getValue e db k = Inr \<lparr>reference_count = c, status = OK, stored_value = v\<rparr>"
      by (simp add: getValue_def db_Get_def ok_def)
    with Some c show ?thesis by auto
  qed
qed

lemma at_full_count_present:
  "getValue e db k = Inr \<lparr>reference_count = c, status = OK, stored_value = v\<rparr> \<Longrightarrow>
   at_full_count e db k = (unat c = 2 ^ 32 - 1)"
  by (simp add: at_full_count_def ok_def)

lemma saveValue_counts_nonzero:
  assumes inv: "counts_nonzero e db" and nw: "\<not> at_full_count e db k"
    and step: "saveValue e db k v = Inr (r, db')"
  shows "counts_nonzero e db'"
  using getValue_counts_nonzero [OF inv, of k]
proof (elim disjE exE conjE)
  assume "getValue e db k = Inr \<lparr>reference_count = 0, status = NotFound, stored_value = []\<rparr>"
  then have "saveValue e db k v = saveValueWithRefCount e 1 db k v"
    by (rule saveValue_absent_eq)
  with step have "saveValueWithRefCount e 1 db k v = Inr (r, db')"
    by simp
  then have t: "table db' = (table db)(k \<mapsto> serializeCountAndValue e 1 v)"
    by (rule saveValueWithRefCount_table)
  show ?thesis
    by (rule counts_nonzero_put [OF inv _ t]) simp
next
  fix c v0
  assume get: "getValue e db k = Inr \<lparr>reference_count = c, status = OK, stored_value = v0\<rparr>"
  from get have "saveValue e db k v =
     (if v0 = v then saveValueWithRefCount e (c + 1) db k v
      else Inl (AssertionFailure StoredValueEqualsValue))"
    by (rule saveValue_present_eq)
  with step have "saveValueWithRefCount e (c + 1) db k v = Inr (r, db')"
    by (cases "v0 = v") simp_all
  then have t: "table db' = (table db)(k \<mapsto> serializeCountAndValue e (c + 1) v)"
    by (rule saveValueWithRefCount_table)
  from nw get have "unat c \<noteq> 2 ^ 32 - 1"
    by (simp add: at_full_count_present)
  then have "1 \<le> c + 1"
    by (rule u32_succ_nonzero)
  with inv show ?thesis
    using t by (rule counts_nonzero_put)
qed

lemma incrementReference_counts_nonzero:
  assumes inv: "counts_nonzero e db" and nw: "\<not> at_full_count e db k"
    and step: "incrementReference e db k = Inr (r, db')"
  shows "counts_nonzero e db'"
  using getValue_counts_nonzero [OF inv, of k]
proof (elim disjE exE conjE)
  assume "getValue e db k = Inr \<lparr>reference_count = 0, status = NotFound, stored_value = []\<rparr>"
  then have "incrementReference e db k =
     Inr (\<lparr>reference_count = 0, status = NotFound, storage_key = k\<rparr>, db)"
    by (rule incrementReference_absent_eq)
  with step have "db' = db" by simp
  with inv show ?thesis by simp
next
  fix c v0
  assume get: "getValue e db k = Inr \<lparr>reference_count = c, status = OK, stored_value = v0\<rparr>"
  from get have "incrementReference e db k = saveValueWithRefCount e (c + 1) db k v0"
    by (rule incrementReference_present_eq)
  with step have "saveValueWithRefCount e (c + 1) db k v0 = Inr (r, db')"
    by simp
  then have t: "table db' = (table db)(k \<mapsto> serializeCountAndValue e (c + 1) v0)"
    by (rule saveValueWithRefCount_table)
  from nw get have "unat c \<noteq> 2 ^ 32 - 1"
    by (simp add: at_full_count_present)
  then have "1 \<le> c + 1"
    by (rule u32_succ_nonzero)
  with inv show ?thesis
    using t by (rule counts_nonzero_put)
qed

lemma deleteValue_counts_nonzero:
  assumes inv: "counts_nonzero e db"
    and step: "deleteValue e db k = Inr (r, db')"
  shows "counts_nonzero e db'"
  using getValue_counts_nonzero [OF inv, of k]
proof (elim disjE exE conjE)
  assume "getValue e db k = Inr \<lparr>reference_count = 0, status = NotFound, stored_value = []\<rparr>"
  then have "deleteValue e db k = Inr (\<lparr>reference_count = 0, status = NotFound\<rparr>, db)"
    by (rule deleteValue_absent_eq)
  with step have "db' = db" by simp
  with inv show ?thesis by simp
next
  fix c v0
  assume get: "getValue e db k = Inr \<lparr>reference_count = c, status = OK, stored_value = v0\<rparr>"
  note eq = deleteValue_present_eq [OF get]
  show ?thesis
  proof (cases "c < 2")
    case True
    with eq step obtain st where "deleteKeyValuePair db k = Inr (st, db')"
      by (cases "deleteKeyValuePair db k") auto
    then have t: "table db' = (table db)(k := None)"
      by (rule deleteKeyValuePair_table)
    show ?thesis
      by (rule counts_nonzero_remove [OF inv t])
  next
    case False
    with eq step obtain u where "saveValueWithRefCount e (c - 1) db k v0 = Inr (u, db')"
      by (cases "saveValueWithRefCount e (c - 1) db k v0") auto
    then have t: "table db' = (table db)(k \<mapsto> serializeCountAndValue e (c - 1) v0)"
      by (rule saveValueWithRefCount_table)
    from False have "1 \<le> c - 1"
      by (rule u32_pred_nonzero)
    with inv show ?thesis
      using t by (rule counts_nonzero_put)
  qed
qed

lemma apply_operation_counts_nonzero:
  assumes "counts_nonzero e db" and "\<not> wraps e db x" and "apply_operation e db x = Inr db'"
  shows "counts_nonzero e db'"
proof (cases x)
  case (SaveValue k v)
  with assms(3) obtain r where step: "saveValue e db k v = Inr (r, db')"
    by (cases "saveValue e db k v") auto
  from SaveValue assms(2) have "\<not> at_full_count e db k" by simp
  with assms(1) show ?thesis using step by (rule saveValue_counts_nonzero)
next
  case (IncrementReference k)
  with assms(3) obtain r where step: "incrementReference e db k = Inr (r, db')"
    by (cases "incrementReference e db k") auto
  from IncrementReference assms(2) have "\<not> at_full_count e db k" by simp
  with assms(1) show ?thesis using step by (rule incrementReference_counts_nonzero)
next
  case (DeleteValue k)
  with assms(3) obtain r where "deleteValue e db k = Inr (r, db')"
    by (cases "deleteValue e db k") auto
  with assms(1) show ?thesis by (rule deleteValue_counts_nonzero)
qed

lemma run_counts_nonzero:
  "counts_nonzero e db \<Longrightarrow> no_wrap e db xs \<Longrightarrow> run e db xs = Inr db' \<Longrightarrow>
   counts_nonzero e db'"
proof (induction xs arbitrary: db)
  case Nil
  then show ?case by simp
next
  case (Cons x xs)
  from Cons.prems(3) obtain db1 where x: "apply_operation e db x = Inr db1"
    and xs: "run e db1 xs = Inr db'"
    by (cases "apply_operation e db x") auto
  from Cons.prems(2) x have nw: "\<not> wraps e db x" and rest: "no_wrap e db1 xs"
    by simp_all
  from Cons.prems(1) nw x have "counts_nonzero e db1"
    by (rule apply_operation_counts_nonzero)
  from this rest xs show ?case by (rule Cons.IH)
qed

lemma run_saves_stored:
  "table db k = Some (serializeCountAndValue e c v) \<Longrightarrow> read_answer db k = OK \<Longrightarrow>
   writes_ok db \<Longrightarrow>
   run e db (replicate n (SaveValue k v)) =
     Inr (db\<lparr>table := (table db)(k \<mapsto> serializeCountAndValue e (c + of_nat n) v)\<rparr>)"
proof (induction n arbitrary: db c)
  case 0
  then have "(table db)(k \<mapsto> serializeCountAndValue e c v) = table db"
    by (simp add: fun_upd_idem)
  then show ?case by simp
next
  case (Suc n)
  let ?db1 = "db\<lparr>table := (table db)(k \<mapsto> serializeCountAndValue e (c + 1) v)\<rparr>"
  have step: "apply_operation e db (SaveValue k v) = Inr ?db1"
    using Suc.prems by (simp add: saveValue_again)
  have "run e db (replicate (Suc n) (SaveValue k v)) = run e ?db1 (replicate n (SaveValue k v))"
    using step by (simp del: apply_operation.simps)
  also have "\<dots> =
     Inr (?db1\<lparr>table := (table ?db1)(k \<mapsto> serializeCountAndValue e (c + 1 + of_nat n) v)\<rparr>)"
    using Suc.prems by (intro Suc.IH) simp_all
  also have "\<dots> =
     Inr (db\<lparr>table := (table db)(k \<mapsto> serializeCountAndValue e (c + of_nat (Suc n)) v)\<rparr>)"
    by (simp add: add.assoc)
  finally show ?case .
qed

lemma run_increments_stored:
  "table db k = Some (serializeCountAndValue e c v) \<Longrightarrow> read_answer db k = OK \<Longrightarrow>
   writes_ok db \<Longrightarrow>
   run e db (replicate n (IncrementReference k)) =
     Inr (db\<lparr>table := (table db)(k \<mapsto> serializeCountAndValue e (c + of_nat n) v)\<rparr>)"
proof (induction n arbitrary: db c)
  case 0
  then have "(table db)(k \<mapsto> serializeCountAndValue e c v) = table db"
    by (simp add: fun_upd_idem)
  then show ?case by simp
next
  case (Suc n)
  let ?db1 = "db\<lparr>table := (table db)(k \<mapsto> serializeCountAndValue e (c + 1) v)\<rparr>"
  have step: "apply_operation e db (IncrementReference k) = Inr ?db1"
    using Suc.prems by (simp add: incrementReference_stored)
  have "run e db (replicate (Suc n) (IncrementReference k)) = run e ?db1 (replicate n (IncrementReference k))"
    using step by (simp del: apply_operation.simps)
  also have "\<dots> =
     Inr (?db1\<lparr>table := (table ?db1)(k \<mapsto> serializeCountAndValue e (c + 1 + of_nat n) v)\<rparr>)"
    using Suc.prems by (intro Suc.IH) simp_all
  also have "\<dots> =
     Inr (db\<lparr>table := (table db)(k \<mapsto> serializeCountAndValue e (c + of_nat (Suc n)) v)\<rparr>)"
    by (simp add: add.assoc)
  finally show ?case .
qed

lemma run_saves_absent:
  assumes "table db k = None" and "read_answer db k = OK" and "writes_ok db" and "0 < n"
  shows "run e db (replicate n (SaveValue k v)) =
     Inr (db\<lparr>table := (table db)(k \<mapsto> serializeCountAndValue e (of_nat n) v)\<rparr>)"
proof -
  from assms(4) obtain m where n: "n = Suc m" by (cases n) auto
  let ?db1 = "db\<lparr>table := (table db)(k \<mapsto> serializeCountAndValue e 1 v)\<rparr>"
  have step: "apply_operation e db (SaveValue k v) = Inr ?db1"
    using assms(1,3) by (simp add: saveValue_first)
  have "run e db (replicate n (SaveValue k v)) = run e ?db1 (replicate m (SaveValue k v))"
    using step n by (simp del: apply_operation.simps)
  also have "\<dots> =
     Inr (?db1\<lparr>table := (table ?db1)(k \<mapsto> serializeCountAndValue e (1 + of_nat m) v)\<rparr>)"
    using assms(2,3) by (intro run_saves_stored) simp_all
  also have "\<dots> =
     Inr (db\<lparr>table := (table db)(k \<mapsto> serializeCountAndValue e (of_nat n) v)\<rparr>)"
    using n by simp
  finally show ?thesis .
qed

lemma apply_operation_keeps_absent:
  assumes "table db k = None" and "\<forall>v. x \<noteq> SaveValue k v" and "apply_operation e db x = Inr db'"
  shows "table db' k = None"
proof (cases x)
  case (SaveValue k' v)
  with assms(2) have ne: "k' \<noteq> k" by auto
  from SaveValue assms(3) obtain r where "saveValue e db k' v = Inr (r, db')"
    by (cases "saveValue e db k' v") auto
  then obtain c where "saveValueWithRefCount e c db k' v = Inr (r, db')"
    using saveValue_writes by blast
  then have "table db' = (table db)(k' \<mapsto> serializeCountAndValue e c v)"
    by (rule saveValueWithRefCount_table)
  with ne assms(1) show ?thesis by simp
next
  case (IncrementReference k')
  from IncrementReference assms(3) obtain r where step: "incrementReference e db k' = Inr (r, db')"
    by (cases "incrementReference e db k'") auto
  show ?thesis
  proof (cases "k' = k")
    case True
    with assms(1) step have "db' = db" by (simp add: getValue_absent incrementReference_absent_eq)
    with assms(1) show ?thesis by simp
  next
    case False
    from incrementReference_writes [OF step] show ?thesis
    proof
      assume "db' = db"
      with assms(1) show ?thesis by simp
    next
      assume "\<exists>c v. saveValueWithRefCount e c db k' v = Inr (r, db')"
      then obtain c v where "saveValueWithRefCount e c db k' v = Inr (r, db')" by blast
      then have "table db' = (table db)(k' \<mapsto> serializeCountAndValue e c v)"
        by (rule saveValueWithRefCount_table)
      with False assms(1) show ?thesis by simp
    qed
  qed
next
  case (DeleteValue k')
  from DeleteValue assms(3) obtain r where step: "deleteValue e db k' = Inr (r, db')"
    by (cases "deleteValue e db k'") auto
  from deleteValue_writes [OF step] show ?thesis
  proof (elim disjE exE)
    assume "db' = db"
    with assms(1) show ?thesis by simp
  next
    fix st
    assume "deleteKeyValuePair db k' = Inr (st, db')"
    then have "table db' = (table db)(k' := None)"
      by (rule deleteKeyValuePair_table)
    with assms(1) show ?thesis by simp
  next
    fix c v u
    assume w: "saveValueWithRefCount e c db k' v = Inr (u, db')"
    then have t: "table db' = (table db)(k' \<mapsto> serializeCountAndValue e c v)"
      by (rule saveValueWithRefCount_table)
    show ?thesis
    proof (cases "k' = k")
      case True
      with assms(1) step have "db' = db" by (simp add: getValue_absent deleteValue_absent_eq)
      with assms(1) show ?thesis by simp
    next
      case False
      with t assms(1) show ?thesis by simp
    qed
  qed
qed

section \<open>The claims\<close>

subsection \<open>C1: a record exists iff its count is at least 1\<close>

text \<open>
  C1, as stated, fails: one \<^verbatim>\<open>saveValue\<close> followed by \<open>2 ^ 32 - 1\<close> calls of
  \<^verbatim>\<open>incrementReference\<close> on a fresh store wraps the count: the record is still in the
  store, and its reference count is 0.
\<close>

theorem refcount_invariant_counterexample:
  "run LittleEndian fresh_db
     (SaveValue [97, 98, 99] [1, 2, 3] # replicate (2 ^ 32 - 1) (IncrementReference [97, 98, 99])) =
     Inr (single_record_db LittleEndian [97, 98, 99] 0 [1, 2, 3])
   \<and> table (single_record_db LittleEndian [97, 98, 99] 0 [1, 2, 3]) [97, 98, 99] \<noteq> None
   \<and> getValue LittleEndian (single_record_db LittleEndian [97, 98, 99] 0 [1, 2, 3]) [97, 98, 99] =
       Inr \<lparr>reference_count = 0, status = OK, stored_value = [1, 2, 3]\<rparr>"
proof -
  let ?k = "[97, 98, 99] :: bytes" and ?v = "[1, 2, 3] :: bytes"
  let ?db1 = "single_record_db LittleEndian ?k 1 ?v"
  have first: "apply_operation LittleEndian fresh_db (SaveValue ?k ?v) = Inr ?db1"
    by (simp add: saveValue_first single_record_db_def fresh_db_def writes_ok_def)
  have "run LittleEndian ?db1 (replicate (2 ^ 32 - 1) (IncrementReference ?k)) =
     Inr (?db1\<lparr>table := (table ?db1)(?k \<mapsto>
            serializeCountAndValue LittleEndian (1 + of_nat (2 ^ 32 - 1)) ?v)\<rparr>)"
    by (rule run_increments_stored) (simp_all add: single_record_db_def fresh_db_def writes_ok_def)
  then have rest: "run LittleEndian ?db1 (replicate (2 ^ 32 - 1) (IncrementReference ?k)) =
     Inr (single_record_db LittleEndian ?k 0 ?v)"
    by (simp add: single_record_db_def u32_wrap)
  have get: "getValue LittleEndian (single_record_db LittleEndian ?k 0 ?v) ?k =
       Inr \<lparr>reference_count = 0, status = OK, stored_value = ?v\<rparr>"
    by (rule getValue_stored) (simp_all add: single_record_db_def fresh_db_def)
  have ex: "table (single_record_db LittleEndian ?k 0 ?v) ?k \<noteq> None"
    by (simp add: single_record_db_def)
  from first rest get ex show ?thesis
    by (simp del: apply_operation.simps)
qed

text \<open>
  C1, amended: start from a store in which every record has a count of at least 1 (an
  empty store is one), and run any sequence of \<^verbatim>\<open>saveValue\<close>, \<^verbatim>\<open>incrementReference\<close> and
  \<^verbatim>\<open>deleteValue\<close> in which no \<^verbatim>\<open>saveValue\<close> or \<^verbatim>\<open>incrementReference\<close> is applied to a
  key whose record \<^verbatim>\<open>getValue\<close> finds with count \<open>2 ^ 32 - 1\<close>. In the store reached, for
  every key the engine can read, \<^verbatim>\<open>getValue\<close> returns, and a record for the key exists iff
  the reference count it reports is at least 1.
\<close>

theorem refcount_invariant_no_wrap:
  assumes "counts_nonzero e db0" and "no_wrap e db0 xs" and "run e db0 xs = Inr db"
    and "read_answer db k = OK"
  shows "\<exists>r. getValue e db k = Inr r \<and> (table db k \<noteq> None) = (1 \<le> reference_count r)"
proof -
  have inv: "counts_nonzero e db"
    using assms(1,2,3) by (rule run_counts_nonzero)
  from getValue_counts_nonzero [OF inv, of k] show ?thesis
  proof (elim disjE exE conjE)
    assume g: "getValue e db k = Inr \<lparr>reference_count = 0, status = NotFound, stored_value = []\<rparr>"
    have "table db k = None"
    proof (cases "table db k")
      case None
      then show ?thesis .
    next
      case (Some s)
      with assms(4) g show ?thesis
        by (cases "parseCountAndValue e s") (auto simp add: getValue_def db_Get_def ok_def)
    qed
    with g show ?thesis by simp
  next
    fix c v
    assume "table db k \<noteq> None" "1 \<le> c"
      "getValue e db k = Inr \<lparr>reference_count = c, status = OK, stored_value = v\<rparr>"
    then show ?thesis by simp
  qed
qed

text \<open>
  C1, amended, at a concrete run: a record of count \<open>2 ^ 32 - 2\<close> is incremented to
  \<open>2 ^ 32 - 1\<close> and deleted twice.
\<close>

theorem refcount_invariant_no_wrap_witness:
  "counts_nonzero LittleEndian (single_record_db LittleEndian [97, 98, 99] 4294967294 [1, 2, 3])
   \<and> no_wrap LittleEndian (single_record_db LittleEndian [97, 98, 99] 4294967294 [1, 2, 3])
        [IncrementReference [97, 98, 99], DeleteValue [97, 98, 99], DeleteValue [97, 98, 99]]
   \<and> run LittleEndian (single_record_db LittleEndian [97, 98, 99] 4294967294 [1, 2, 3])
        [IncrementReference [97, 98, 99], DeleteValue [97, 98, 99], DeleteValue [97, 98, 99]] =
       Inr (single_record_db LittleEndian [97, 98, 99] 4294967293 [1, 2, 3])
   \<and> read_answer (single_record_db LittleEndian [97, 98, 99] 4294967293 [1, 2, 3])
        [97, 98, 99] = OK
   \<and> (\<exists>r. getValue LittleEndian (single_record_db LittleEndian [97, 98, 99] 4294967293 [1, 2, 3])
              [97, 98, 99] = Inr r
        \<and> (table (single_record_db LittleEndian [97, 98, 99] 4294967293 [1, 2, 3])
              [97, 98, 99] \<noteq> None) = (1 \<le> reference_count r))"
proof -
  let ?xs = "[IncrementReference [97, 98, 99], DeleteValue [97, 98, 99], DeleteValue [97, 98, 99]]"
  let ?start = "single_record_db LittleEndian [97, 98, 99] 4294967294 [1, 2, 3]"
  let ?db = "single_record_db LittleEndian [97, 98, 99] 4294967293 [1, 2, 3]"
  have h1: "counts_nonzero LittleEndian ?start"
    by (rule counts_nonzero_single_record) simp
  have h3: "run LittleEndian ?start ?xs = Inr ?db"
    by (simp add: eval_defs)
  have h2: "no_wrap LittleEndian ?start ?xs"
    by (simp add: at_full_count_def eval_defs)
  have h4: "read_answer ?db [97, 98, 99] = OK"
    by (simp add: single_record_db_def fresh_db_def)
  from h1 h2 h3 h4 refcount_invariant_no_wrap [OF h1 h2 h3 h4] show ?thesis
    by simp
qed

subsection \<open>C2: the status of a failed read\<close>

text \<open>
  C2, as stated, fails: when the engine answers a read with \<open>IOError\<close>, \<^verbatim>\<open>getValue\<close>
  returns the status \<open>NotFound\<close>, not the engine's status.
\<close>

theorem getValue_engine_status_counterexample:
  "db_Get (read_failing_db IOError) [97, 98, 99] = (IOError, [])
   \<and> getValue LittleEndian (read_failing_db IOError) [97, 98, 99] =
       Inr \<lparr>reference_count = 0, status = NotFound, stored_value = []\<rparr>
   \<and> NotFound \<noteq> IOError"
  by (simp add: eval_defs)

text \<open>
  C2, amended: whenever the engine's read answers with a status that is not OK,
  \<^verbatim>\<open>getValue\<close> returns count 0, an empty value and the status \<open>NotFound\<close>, whatever the
  engine's status was.
\<close>

theorem getValue_collapses_read_failure:
  "\<not> ok (fst (db_Get db k)) \<Longrightarrow>
   getValue e db k = Inr \<lparr>reference_count = 0, status = NotFound, stored_value = []\<rparr>"
  by (cases "db_Get db k") (simp add: getValue_def)

text \<open>
  C2, amended, at a concrete store: a record of count 1 behind an engine whose reads
  fail with \<open>IOError\<close>.
\<close>

theorem getValue_collapses_read_failure_witness:
  "\<not> ok (fst (db_Get (read_failing_db IOError) [97, 98, 99]))
   \<and> getValue LittleEndian (read_failing_db IOError) [97, 98, 99] =
       Inr \<lparr>reference_count = 0, status = NotFound, stored_value = []\<rparr>"
proof -
  have h: "\<not> ok (fst (db_Get (read_failing_db IOError) [97, 98, 99]))"
    by (simp add: eval_defs)
  from h getValue_collapses_read_failure [OF h] show ?thesis by simp
qed

subsection \<open>C3: saving the same value n times\<close>

text \<open>
  C3, as stated, fails: after \<open>2 ^ 32\<close> calls of \<^verbatim>\<open>saveValue\<close> with the same key and value
  on a fresh store, the stored count is 0, not \<open>2 ^ 32\<close>.
\<close>

theorem saveValue_counts_saves_counterexample:
  "run LittleEndian fresh_db (replicate (2 ^ 32) (SaveValue [97, 98, 99] [1, 2, 3])) =
     Inr (single_record_db LittleEndian [97, 98, 99] 0 [1, 2, 3])
   \<and> getValue LittleEndian (single_record_db LittleEndian [97, 98, 99] 0 [1, 2, 3]) [97, 98, 99] =
       Inr \<lparr>reference_count = 0, status = OK, stored_value = [1, 2, 3]\<rparr>"
proof -
  let ?k = "[97, 98, 99] :: bytes" and ?v = "[1, 2, 3] :: bytes"
  have "run LittleEndian fresh_db (replicate (2 ^ 32) (SaveValue ?k ?v)) =
     Inr (fresh_db\<lparr>table := (table fresh_db)(?k \<mapsto>
            serializeCountAndValue LittleEndian (of_nat (2 ^ 32)) ?v)\<rparr>)"
    by (rule run_saves_absent) (simp_all add: fresh_db_def writes_ok_def)
  then have all: "run LittleEndian fresh_db (replicate (2 ^ 32) (SaveValue ?k ?v)) =
     Inr (single_record_db LittleEndian ?k 0 ?v)"
    by (simp add: single_record_db_def u32_wrap)
  have get: "getValue LittleEndian (single_record_db LittleEndian ?k 0 ?v) ?k =
       Inr \<lparr>reference_count = 0, status = OK, stored_value = ?v\<rparr>"
    by (rule getValue_stored) (simp_all add: single_record_db_def fresh_db_def)
  from all get show ?thesis by simp
qed

text \<open>
  C3, amended: starting from a store with no record for \<open>k\<close>, on an engine whose reads of
  \<open>k\<close> and whose transactions succeed, \<open>n \<ge> 1\<close> calls of \<^verbatim>\<open>saveValue(k, v)\<close> leave
  the record \<open>(n mod 2 ^ 32, v)\<close>, which \<^verbatim>\<open>getValue\<close> reports as found; so the count is
  \<open>n\<close> for \<open>n < 2 ^ 32\<close>. After one call, \<^verbatim>\<open>saveValue\<close> has reported count 1 and
  \<^verbatim>\<open>getValue\<close> returns count 1, value \<open>v\<close> and an OK status.
\<close>

theorem saveValue_counts_saves:
  assumes "table db k = None" and "read_answer db k = OK" and "writes_ok db" and "0 < n"
  shows "run e db (replicate n (SaveValue k v)) =
           Inr (db\<lparr>table := (table db)(k \<mapsto> serializeCountAndValue e (of_nat n) v)\<rparr>)
         \<and> getValue e (db\<lparr>table := (table db)(k \<mapsto> serializeCountAndValue e (of_nat n) v)\<rparr>) k =
           Inr \<lparr>reference_count = of_nat n, status = OK, stored_value = v\<rparr>
         \<and> unat (of_nat n :: u32) = n mod 2 ^ 32
         \<and> saveValue e db k v =
           Inr (\<lparr>reference_count = 1, status = OK, storage_key = k\<rparr>,
                db\<lparr>table := (table db)(k \<mapsto> serializeCountAndValue e 1 v)\<rparr>)
         \<and> getValue e (db\<lparr>table := (table db)(k \<mapsto> serializeCountAndValue e 1 v)\<rparr>) k =
           Inr \<lparr>reference_count = 1, status = OK, stored_value = v\<rparr>"
proof -
  have get: "getValue e (db\<lparr>table := (table db)(k \<mapsto> serializeCountAndValue e c v)\<rparr>) k =
           Inr \<lparr>reference_count = c, status = OK, stored_value = v\<rparr>" for c
    using assms(2) by (simp add: getValue_stored)
  have "unat (of_nat n :: u32) = n mod 2 ^ 32"
    by (simp add: unat_of_nat)
  with run_saves_absent [OF assms] saveValue_first [OF assms(1,3)] get show ?thesis
    by simp
qed

text \<open>
  C3, amended, at a concrete store: three saves of one key on a fresh store.
\<close>

theorem saveValue_counts_saves_witness:
  "table fresh_db [97, 98, 99] = None \<and> read_answer fresh_db [97, 98, 99] = OK
   \<and> writes_ok fresh_db \<and> (0 :: nat) < 3
   \<and> run LittleEndian fresh_db (replicate 3 (SaveValue [97, 98, 99] [1, 2, 3])) =
       Inr (single_record_db LittleEndian [97, 98, 99] 3 [1, 2, 3])
   \<and> getValue LittleEndian (single_record_db LittleEndian [97, 98, 99] 3 [1, 2, 3]) [97, 98, 99] =
       Inr \<lparr>reference_count = 3, status = OK, stored_value = [1, 2, 3]\<rparr>
   \<and> unat (3 :: u32) = 3 mod 2 ^ 32
   \<and> saveValue LittleEndian fresh_db [97, 98, 99] [1, 2, 3] =
       Inr (\<lparr>reference_count = 1, status = OK, storage_key = [97, 98, 99]\<rparr>,
            single_record_db LittleEndian [97, 98, 99] 1 [1, 2, 3])
   \<and> getValue LittleEndian (single_record_db LittleEndian [97, 98, 99] 1 [1, 2, 3]) [97, 98, 99] =
       Inr \<lparr>reference_count = 1, status = OK, stored_value = [1, 2, 3]\<rparr>"
proof -
  have h1: "table fresh_db [97, 98, 99] = None"
    by (simp add: fresh_db_def)
  have h2: "read_answer fresh_db [97, 98, 99] = OK"
    by (simp add: fresh_db_def)
  have h3: "writes_ok fresh_db"
    by (rule writes_ok_fresh)
  have h4: "(0 :: nat) < 3"
    by simp
  from h1 h2 h3 h4
    saveValue_counts_saves [OF h1 h2 h3 h4, of LittleEndian "[1, 2, 3]"]
  show ?thesis
    by (simp add: single_record_db_def)
qed

subsection \<open>C4: the record format round-trips\<close>

text \<open>
  C4: for every count, every value (the empty one too) and either byte order,
  \<^verbatim>\<open>parseCountAndValue\<close> of \<^verbatim>\<open>serializeCountAndValue(count, value)\<close> returns
  \<open>(count, value)\<close>.
\<close>

theorem parse_serialize_roundtrip:
  "parseCountAndValue e (serializeCountAndValue e count val) = Inr (count, val)"
  unfolding serializeCountAndValue_def by (rule parse_record)

subsection \<open>C5: deleting one of several references\<close>

text \<open>
  C5: when \<^verbatim>\<open>getValue\<close> finds a record for \<open>k\<close> with count greater than 1 and
  the engine's transactions succeed, \<^verbatim>\<open>deleteValue(k)\<close> reports the count decremented by
  exactly 1, rewrites the record with that count and the stored value, and \<^verbatim>\<open>getValue(k)\<close>
  afterwards returns the decremented count and the original value.
\<close>

theorem deleteValue_decrements:
  assumes "getValue e db k = Inr r" and "ok (status r)" and "1 < reference_count r"
    and "writes_ok db"
  shows "deleteValue e db k =
           Inr (\<lparr>reference_count = reference_count r - 1, status = OK\<rparr>,
                db\<lparr>table := (table db)(k \<mapsto>
                  serializeCountAndValue e (reference_count r - 1) (stored_value r))\<rparr>)
         \<and> unat (reference_count r - 1) = unat (reference_count r) - 1
         \<and> getValue e
             (db\<lparr>table := (table db)(k \<mapsto>
                  serializeCountAndValue e (reference_count r - 1) (stored_value r))\<rparr>) k =
           Inr \<lparr>reference_count = reference_count r - 1, status = OK,
                stored_value = stored_value r\<rparr>"
proof -
  have not_last: "\<not> reference_count r < 2"
    using assms(3) by (simp add: word_less_nat_alt word_le_nat_alt not_less) 
  have read: "read_answer db k = OK"
    using assms(1,2) by (rule getValue_okD(1))
  have del: "deleteValue e db k =
           Inr (\<lparr>reference_count = reference_count r - 1, status = OK\<rparr>,
                db\<lparr>table := (table db)(k \<mapsto>
                  serializeCountAndValue e (reference_count r - 1) (stored_value r))\<rparr>)"
    using assms(1,2,4) not_last
    by (simp add: deleteValue_def saveValueWithRefCount_ok)
  have dec: "unat (reference_count r - 1) = unat (reference_count r) - 1"
    using assms(3) by (rule unat_pred)
  have get: "getValue e
             (db\<lparr>table := (table db)(k \<mapsto>
                  serializeCountAndValue e (reference_count r - 1) (stored_value r))\<rparr>) k =
           Inr \<lparr>reference_count = reference_count r - 1, status = OK,
                stored_value = stored_value r\<rparr>"
    using read by (simp add: getValue_stored)
  from del dec get show ?thesis by simp
qed

text \<open>
  C5, at a concrete store: a record of count 3.
\<close>

theorem deleteValue_decrements_witness:
  "getValue LittleEndian (single_record_db LittleEndian [97, 98, 99] 3 [1, 2, 3]) [97, 98, 99] =
     Inr \<lparr>reference_count = 3, status = OK, stored_value = [1, 2, 3]\<rparr>
   \<and> ok OK \<and> (1 :: u32) < 3
   \<and> writes_ok (single_record_db LittleEndian [97, 98, 99] 3 [1, 2, 3])
   \<and> deleteValue LittleEndian (single_record_db LittleEndian [97, 98, 99] 3 [1, 2, 3])
         [97, 98, 99] =
       Inr (\<lparr>reference_count = 2, status = OK\<rparr>,
            single_record_db LittleEndian [97, 98, 99] 2 [1, 2, 3])
   \<and> getValue LittleEndian (single_record_db LittleEndian [97, 98, 99] 2 [1, 2, 3]) [97, 98, 99] =
       Inr \<lparr>reference_count = 2, status = OK, stored_value = [1, 2, 3]\<rparr>"
proof -
  let ?db = "single_record_db LittleEndian [97, 98, 99] 3 [1, 2, 3]"
  let ?r = "\<lparr>reference_count = 3, status = OK, stored_value = [1, 2, 3]\<rparr> :: GetResults"
  have h1: "getValue LittleEndian ?db [97, 98, 99] = Inr ?r"
    by (rule getValue_single_record)
  have h2: "ok (status ?r)"
    by (simp add: ok_def)
  have h3: "1 < reference_count ?r"
    by simp
  have h4: "writes_ok ?db"
    by (rule writes_ok_single_record)
  from h1 h2 h3 h4 deleteValue_decrements [OF h1 h2 h3 h4] show ?thesis
    by (simp add: single_record_db_def ok_def)
qed

subsection \<open>C6: deleting the last reference\<close>

text \<open>
  C6: when \<^verbatim>\<open>getValue\<close> finds a record for \<open>k\<close> with count at most 1 and the
  engine's transactions succeed, \<^verbatim>\<open>deleteValue(k)\<close> removes the record and reports count 0,
  and \<^verbatim>\<open>getValue(k)\<close> afterwards reports not-found.
\<close>

theorem deleteValue_last_reference:
  assumes "getValue e db k = Inr r" and "ok (status r)" and "reference_count r \<le> 1"
    and "writes_ok db"
  shows "deleteValue e db k =
           Inr (\<lparr>reference_count = 0, status = OK\<rparr>, db\<lparr>table := (table db)(k := None)\<rparr>)
         \<and> table (db\<lparr>table := (table db)(k := None)\<rparr>) k = None
         \<and> getValue e (db\<lparr>table := (table db)(k := None)\<rparr>) k =
           Inr \<lparr>reference_count = 0, status = NotFound, stored_value = []\<rparr>"
proof -
  have last: "reference_count r < 2"
    using assms(3) by (rule not_less_2)
  have del: "deleteValue e db k =
           Inr (\<lparr>reference_count = 0, status = OK\<rparr>, db\<lparr>table := (table db)(k := None)\<rparr>)"
    using assms(1,2,4) last by (simp add: deleteValue_def deleteKeyValuePair_ok)
  have get: "getValue e (db\<lparr>table := (table db)(k := None)\<rparr>) k =
           Inr \<lparr>reference_count = 0, status = NotFound, stored_value = []\<rparr>"
    by (rule getValue_absent) simp
  from del get show ?thesis by simp
qed

text \<open>
  C6, at a concrete store: a record of count 1.
\<close>

theorem deleteValue_last_reference_witness:
  "getValue LittleEndian (single_record_db LittleEndian [97, 98, 99] 1 [1, 2, 3]) [97, 98, 99] =
     Inr \<lparr>reference_count = 1, status = OK, stored_value = [1, 2, 3]\<rparr>
   \<and> ok OK \<and> (1 :: u32) \<le> 1
   \<and> writes_ok (single_record_db LittleEndian [97, 98, 99] 1 [1, 2, 3])
   \<and> deleteValue LittleEndian (single_record_db LittleEndian [97, 98, 99] 1 [1, 2, 3])
         [97, 98, 99] =
       Inr (\<lparr>reference_count = 0, status = OK\<rparr>, fresh_db)
   \<and> table fresh_db [97, 98, 99] = None
   \<and> getValue LittleEndian fresh_db [97, 98, 99] =
       Inr \<lparr>reference_count = 0, status = NotFound, stored_value = []\<rparr>"
proof -
  let ?db = "single_record_db LittleEndian [97, 98, 99] 1 [1, 2, 3]"
  let ?r = "\<lparr>reference_count = 1, status = OK, stored_value = [1, 2, 3]\<rparr> :: GetResults"
  have h1: "getValue LittleEndian ?db [97, 98, 99] = Inr ?r"
    by (rule getValue_single_record)
  have h2: "ok (status ?r)"
    by (simp add: ok_def)
  have h3: "reference_count ?r \<le> 1"
    by simp
  have h4: "writes_ok ?db"
    by (rule writes_ok_single_record)
  from h1 h2 h3 h4 deleteValue_last_reference [OF h1 h2 h3 h4] show ?thesis
    by (simp add: single_record_db_def ok_def fresh_db_def)
qed

subsection \<open>C7: incrementing an absent key\<close>

text \<open>
  C7: for a key with no record, \<^verbatim>\<open>incrementReference\<close> returns count 0 with the
  status \<open>NotFound\<close> and leaves the store as it was.
\<close>

theorem incrementReference_absent:
  "table db k = None \<Longrightarrow>
   incrementReference e db k =
     Inr (\<lparr>reference_count = 0, status = NotFound, storage_key = k\<rparr>, db)"
  by (simp add: incrementReference_def getValue_absent ok_def)

text \<open>
  C7, at a concrete store: a fresh store.
\<close>

theorem incrementReference_absent_witness:
  "table fresh_db [97, 98, 99] = None
   \<and> incrementReference LittleEndian fresh_db [97, 98, 99] =
       Inr (\<lparr>reference_count = 0, status = NotFound, storage_key = [97, 98, 99]\<rparr>, fresh_db)"
proof -
  have h: "table fresh_db [97, 98, 99] = None"
    by (simp add: fresh_db_def)
  from h incrementReference_absent [OF h] show ?thesis
    by simp
qed

subsection \<open>C8: reading a key never saved\<close>

text \<open>
  C8: for a key that had no record at the start and that no \<^verbatim>\<open>saveValue\<close> of the
  sequence names, \<^verbatim>\<open>getValue\<close> after the sequence returns normally, with the status
  \<open>NotFound\<close>, count 0 and an empty value.
\<close>

theorem getValue_never_saved:
  "table db0 k = None \<Longrightarrow> \<forall>v. SaveValue k v \<notin> set xs \<Longrightarrow> run e db0 xs = Inr db \<Longrightarrow>
   getValue e db k = Inr \<lparr>reference_count = 0, status = NotFound, stored_value = []\<rparr>"
proof (induction xs arbitrary: db0)
  case Nil
  then show ?case by (simp add: getValue_absent)
next
  case (Cons x xs)
  from Cons.prems(3) obtain db1 where x: "apply_operation e db0 x = Inr db1"
    and xs: "run e db1 xs = Inr db"
    by (cases "apply_operation e db0 x") auto
  from Cons.prems(2) have first: "\<forall>v. x \<noteq> SaveValue k v"
    by (metis list.set_intros(1))
  from Cons.prems(2) have rest: "\<forall>v. SaveValue k v \<notin> set xs"
    by (metis list.set_intros(2))
  from Cons.prems(1) first x have "table db1 k = None"
    by (rule apply_operation_keeps_absent)
  from Cons.IH [OF this rest xs] show ?case .
qed

text \<open>
  C8, at a concrete sequence: another key is saved, and the key itself only incremented and
  deleted.
\<close>

theorem getValue_never_saved_witness:
  "table fresh_db [97, 98, 99] = None
   \<and> (\<forall>v. SaveValue [97, 98, 99] v \<notin>
          set [SaveValue [120] [7], IncrementReference [97, 98, 99], DeleteValue [97, 98, 99]])
   \<and> run LittleEndian fresh_db
        [SaveValue [120] [7], IncrementReference [97, 98, 99], DeleteValue [97, 98, 99]] =
       Inr (single_record_db LittleEndian [120] 1 [7])
   \<and> getValue LittleEndian (single_record_db LittleEndian [120] 1 [7]) [97, 98, 99] =
       Inr \<lparr>reference_count = 0, status = NotFound, stored_value = []\<rparr>"
proof -
  let ?xs = "[SaveValue [120] [7], IncrementReference [97, 98, 99], DeleteValue [97, 98, 99]]"
  have h1: "table fresh_db [97, 98, 99] = None"
    by (simp add: fresh_db_def)
  have h2: "\<forall>v. SaveValue [97, 98, 99] v \<notin> set ?xs"
    by simp
  have h3: "run LittleEndian fresh_db ?xs = Inr (single_record_db LittleEndian [120] 1 [7])"
    by (simp add: eval_defs)
  from h1 h2 h3 getValue_never_saved [OF h1 h2 h3] show ?thesis
    by simp
qed

subsection \<open>C9: the content-address assertion\<close>



subsection \<open>C10: the count wraps\<close>



end
